theory Spec2Isabelle
  imports Main "HOL-Library.Sublist" "HOL-Library.Multiset"
begin

section \<open>Strings and character classes\<close>

text \<open>
  Python strings are modelled as \<^typ>\<open>string\<close>, a character standing for the code point
  of its number: the model covers the strings of code points below 256. The character
  classes are those of Python's \<open>re\<close> and \<open>str\<close> on these code points: \<open>[a-z]\<close> is ASCII,
  \<open>\d\<close> has no digit beyond \<open>0-9\<close> there, \<open>\w\<close> and \<open>str.lower\<close> also cover the letters and
  numbers above 127.
\<close>

definition is_lower :: "char \<Rightarrow> bool" where
  "is_lower c = (97 \<le> (of_char c :: nat) \<and> (of_char c :: nat) \<le> 122)"

definition is_upper :: "char \<Rightarrow> bool" where
  "is_upper c = (65 \<le> (of_char c :: nat) \<and> (of_char c :: nat) \<le> 90)"

definition is_digit :: "char \<Rightarrow> bool" where
  "is_digit c = (48 \<le> (of_char c :: nat) \<and> (of_char c :: nat) \<le> 57)"

definition is_sep :: "char \<Rightarrow> bool" where
  "is_sep c = (c = CHR ''-'' \<or> c = CHR ''_'')"

definition is_alnum :: "char \<Rightarrow> bool" where
  "is_alnum c = (is_lower c \<or> is_digit c)"

text \<open>
  The class \<open>\w\<close> that decides the word boundary \<open>\b\<close>: the ASCII letters and digits,
  the underscore, and the letters and numbers among the code points 128 to 255.
\<close>

definition is_word_high :: "char \<Rightarrow> bool" where
  "is_word_high c =
     ((of_char c :: nat) = 170 \<or> (of_char c :: nat) = 178 \<or> (of_char c :: nat) = 179
      \<or> (of_char c :: nat) = 181 \<or> (of_char c :: nat) = 185 \<or> (of_char c :: nat) = 186
      \<or> (188 \<le> (of_char c :: nat) \<and> (of_char c :: nat) \<le> 190)
      \<or> (192 \<le> (of_char c :: nat) \<and> (of_char c :: nat) \<le> 214)
      \<or> (216 \<le> (of_char c :: nat) \<and> (of_char c :: nat) \<le> 246)
      \<or> 248 \<le> (of_char c :: nat))"

definition is_word :: "char \<Rightarrow> bool" where
  "is_word c = (is_lower c \<or> is_upper c \<or> is_digit c \<or> c = CHR ''_'' \<or> is_word_high c)"

text \<open>The characters \<open>str.split()\<close> treats as whitespace.\<close>

definition is_space :: "char \<Rightarrow> bool" where
  "is_space c = ((9 \<le> (of_char c :: nat) \<and> (of_char c :: nat) \<le> 13)
                 \<or> (28 \<le> (of_char c :: nat) \<and> (of_char c :: nat) \<le> 32)
                 \<or> (of_char c :: nat) = 133 \<or> (of_char c :: nat) = 160)"

text \<open>
  \<open>str.lower\<close>: the capital letters are \<open>A-Z\<close> and the code points 192 to 222 without 215,
  each 32 below its small letter.
\<close>

definition is_upper_high :: "char \<Rightarrow> bool" where
  "is_upper_high c =
     ((192 \<le> (of_char c :: nat) \<and> (of_char c :: nat) \<le> 214)
      \<or> (216 \<le> (of_char c :: nat) \<and> (of_char c :: nat) \<le> 222))"

definition lower_char :: "char \<Rightarrow> char" where
  "lower_char c =
     (if is_upper c \<or> is_upper_high c then char_of ((of_char c :: nat) + 32) else c)"

definition lower :: "string \<Rightarrow> string" where
  "lower s = map lower_char s"

text \<open>\<open>needle in haystack\<close> on strings.\<close>

fun py_in :: "string \<Rightarrow> string \<Rightarrow> bool" where
  "py_in t [] = (t = [])"
| "py_in t (c # cs) = (prefix t (c # cs) \<or> py_in t cs)"

section \<open>Configuration\<close>

definition STOPWORDS :: "string list" where
  "STOPWORDS =
    [''a'', ''an'', ''the'', ''and'', ''or'', ''but'', ''is'', ''are'', ''was'', ''were'', ''be'',
     ''been'', ''being'', ''have'', ''has'', ''had'', ''do'', ''does'', ''did'', ''will'', ''would'',
     ''could'', ''should'', ''may'', ''might'', ''must'', ''shall'', ''can'', ''to'', ''of'', ''in'',
     ''for'', ''on'', ''with'', ''at'', ''by'', ''from'', ''as'', ''into'', ''through'', ''during'',
     ''before'', ''after'', ''above'', ''below'', ''between'', ''under'', ''again'', ''further'',
     ''then'', ''once'', ''here'', ''there'', ''when'', ''where'', ''why'', ''how'', ''all'', ''each'',
     ''few'', ''more'', ''most'', ''other'', ''some'', ''such'', ''no'', ''nor'', ''not'', ''only'',
     ''own'', ''same'', ''so'', ''than'', ''too'', ''very'', ''just'', ''about'', ''what'', ''which'',
     ''who'', ''whom'', ''this'', ''that'', ''these'', ''those'', ''am'', ''i'', ''me'', ''my'', ''we'',
     ''our'', ''you'', ''your'', ''he'', ''him'', ''his'', ''she'', ''her'', ''it'', ''its'', ''they'',
     ''them'', ''their'', ''if'', ''up'', ''out'', ''off'', ''over'', ''any'']"

section \<open>The regular expressions of the tokenizer\<close>

text \<open>
  \<open>[a-z]{1,2}[\-_]?\d{1,2}\<close> at the start of a string: the length of the match, if there
  is one. The alternatives are tried in the order of the backtracking matcher: greedy
  quantifiers first, two letters before one, the separator taken before it is skipped, two
  digits before one.
\<close>

definition match_digits :: "string \<Rightarrow> nat option" where
  "match_digits s =
     (case s of
        d1 # d2 # _ \<Rightarrow> (if is_digit d1 then Some (if is_digit d2 then 2 else 1) else None)
      | [d1] \<Rightarrow> (if is_digit d1 then Some 1 else None)
      | [] \<Rightarrow> None)"

definition match_sep_digits :: "string \<Rightarrow> nat option" where
  "match_sep_digits s =
     (case (case s of c # cs \<Rightarrow> (if is_sep c then map_option Suc (match_digits cs) else None)
                    | [] \<Rightarrow> None) of
        Some n \<Rightarrow> Some n
      | None \<Rightarrow> match_digits s)"

definition match_platform :: "string \<Rightarrow> nat option" where
  "match_platform s =
     (case (case s of
              l1 # l2 # cs \<Rightarrow>
                (if is_lower l1 \<and> is_lower l2
                 then map_option (\<lambda>n. n + 2) (match_sep_digits cs) else None)
            | _ \<Rightarrow> None) of
        Some n \<Rightarrow> Some n
      | None \<Rightarrow>
          (case s of
             l1 # cs \<Rightarrow> (if is_lower l1 then map_option Suc (match_sep_digits cs) else None)
           | [] \<Rightarrow> None))"

text \<open>
  \<open>re.findall\<close> for the platform pattern: leftmost matches, not overlapping; the scan goes on
  behind a match, and one character further where there is none.
\<close>

function findall_platform :: "string \<Rightarrow> string list" where
  "findall_platform [] = []"
| "findall_platform (c # cs) =
     (case match_platform (c # cs) of
        Some n \<Rightarrow> take n (c # cs) # findall_platform (drop n (c # cs))
      | None \<Rightarrow> findall_platform cs)"
  by pat_completeness auto
termination
  by (relation "measure length")
     (auto simp: match_platform_def match_sep_digits_def match_digits_def
           split: list.splits if_splits option.splits)

text \<open>\<open>[a-z]+|\d+\<close>: the letter runs and the digit runs of a platform token.\<close>

function findall_parts :: "string \<Rightarrow> string list" where
  "findall_parts [] = []"
| "findall_parts (c # cs) =
     (if is_lower c then takeWhile is_lower (c # cs) # findall_parts (dropWhile is_lower cs)
      else if is_digit c then takeWhile is_digit (c # cs) # findall_parts (dropWhile is_digit cs)
      else findall_parts cs)"
  by pat_completeness auto
termination
  by (relation "measure length") (auto simp: length_dropWhile_le less_Suc_eq_le)

text \<open>The maximal runs of characters of a class; \<open>[a-z0-9]+\<close> is \<open>runs is_alnum\<close>.\<close>

function runs :: "(char \<Rightarrow> bool) \<Rightarrow> string \<Rightarrow> string list" where
  "runs P [] = []"
| "runs P (c # cs) =
     (if P c then takeWhile P (c # cs) # runs P (dropWhile P cs) else runs P cs)"
  by pat_completeness auto
termination
  by (relation "measure (\<lambda>(P, s). length s)") (auto simp: length_dropWhile_le less_Suc_eq_le)

section \<open>The query tokenizer\<close>

text \<open>The loop that removes duplicates, keeping the first occurrence of each token.\<close>

fun dedup :: "string list \<Rightarrow> string list \<Rightarrow> string list" where
  "dedup seen [] = []"
| "dedup seen (t # ts) =
     (if t \<in> set seen then dedup seen ts else t # dedup (t # seen) ts)"

definition tokenize_query :: "string \<Rightarrow> string list" where
  "tokenize_query query =
     (let query_lower = lower query;
          platform_tokens = findall_platform query_lower;
          platform_parts = concat (map findall_parts platform_tokens);
          regular_tokens = runs is_alnum query_lower;
          regular_tokens = filter (\<lambda>t. t \<notin> set STOPWORDS \<and> length t > 1
                                      \<and> t \<notin> set platform_parts) regular_tokens
      in dedup [] (platform_tokens @ regular_tokens))"

section \<open>Chunks\<close>

text \<open>
  A chunk is a JSON object; each key may be missing. The fields have the types the knowledge
  base gives them.
\<close>

record chunk =
  c_id :: "string option"
  c_text :: "string option"
  c_source :: "string option"
  c_page :: "int option"
  c_platform :: "string option"

datatype error = KeyError

section \<open>Relevance scoring\<close>

text \<open>
  The pattern \<open>\b token \b\<close> at a position of the text. \<open>prev\<close> tells whether the character
  before the position is a word character (false at the start of the text).
\<close>

definition word_at :: "string \<Rightarrow> bool" where
  "word_at s = (case s of [] \<Rightarrow> False | c # _ \<Rightarrow> is_word c)"

definition match_token :: "string \<Rightarrow> bool \<Rightarrow> string \<Rightarrow> bool" where
  "match_token t prev s =
     (prev \<noteq> word_at s \<and> prefix t s
      \<and> (if t = [] then prev else is_word (last t)) \<noteq> word_at (drop (length t) s))"

text \<open>
  The number of matches \<open>re.findall\<close> returns for that pattern: the scan restarts behind a
  match (one character further after an empty match), so that matches do not overlap.
\<close>

function count_from :: "string \<Rightarrow> bool \<Rightarrow> string \<Rightarrow> nat" where
  "count_from t prev [] = (if match_token t prev [] then 1 else 0)"
| "count_from t prev (c # cs) =
     (if match_token t prev (c # cs)
      then (if t = [] then Suc (count_from t (is_word c) cs)
            else Suc (count_from t (is_word (last t)) (drop (length t) (c # cs))))
      else count_from t (is_word c) cs)"
  by pat_completeness auto
termination
  by (relation "measure (\<lambda>(t, prev, s). length s)") auto

definition count_matches :: "string \<Rightarrow> string \<Rightarrow> nat" where
  "count_matches token text_lower = count_from token False text_lower"

definition PLATFORM_FORMS :: "string list" where
  "PLATFORM_FORMS = [''ah-1'', ''rc-12'', ''uh-1'', ''oh-58'', ''c-12'', ''ch-47'', ''uh-60'']"

text \<open>The penalty loop: it leaves at the first surface form that applies.\<close>

fun penalty_scan :: "string \<Rightarrow> string \<Rightarrow> string list \<Rightarrow> int \<Rightarrow> int" where
  "penalty_scan query_lower platform_lower [] score = score"
| "penalty_scan query_lower platform_lower (pt # pts) score =
     (if py_in pt query_lower \<and> \<not> py_in pt platform_lower then score - 5
      else penalty_scan query_lower platform_lower pts score)"

fun py_join :: "string \<Rightarrow> string list \<Rightarrow> string" where
  "py_join sep [] = []"
| "py_join sep [x] = x"
| "py_join sep (x # y # ys) = x @ sep @ py_join sep (y # ys)"

definition keyword_score :: "string list \<Rightarrow> string \<Rightarrow> int" where
  "keyword_score query_tokens text_lower =
     fold (\<lambda>token score. score + int (count_matches token text_lower)) query_tokens 0"

text \<open>
  The body of the loop over the knowledge base, up to the final score. \<open>chunk["text"]\<close>
  raises \<open>KeyError\<close> when the key is missing; \<open>chunk.get("platform", "UNKNOWN")\<close> does not.
\<close>

definition score_chunk :: "string \<Rightarrow> string list \<Rightarrow> chunk \<Rightarrow> error + int" where
  "score_chunk query_lower query_tokens chunk =
     (case c_text chunk of
        None \<Rightarrow> Inl KeyError
      | Some txt \<Rightarrow>
          (let text_lower = lower txt;
               score = keyword_score query_tokens text_lower;
               platform = (case c_platform chunk of None \<Rightarrow> ''UNKNOWN'' | Some p \<Rightarrow> p);
               score =
                 (if platform \<noteq> ''UNKNOWN'' \<and> py_in (lower platform) query_lower
                  then score + 10
                  else if platform \<noteq> ''UNKNOWN''
                  then penalty_scan query_lower (lower platform) PLATFORM_FORMS score
                  else score);
               score =
                 (if length query_tokens \<ge> 2
                  then (if py_in (py_join '' '' (take 3 query_tokens)) text_lower
                        then score + 5 else score)
                  else score)
           in Inr score))"

section \<open>Ranking\<close>

text \<open>The loop over the knowledge base; \<open>scored_chunks\<close> is the list it appends to.\<close>

fun score_chunks ::
  "string \<Rightarrow> string list \<Rightarrow> chunk list \<Rightarrow> (int \<times> chunk) list \<Rightarrow> error + (int \<times> chunk) list"
where
  "score_chunks query_lower query_tokens [] scored_chunks = Inr scored_chunks"
| "score_chunks query_lower query_tokens (chunk # kb) scored_chunks =
     (case score_chunk query_lower query_tokens chunk of
        Inl e \<Rightarrow> Inl e
      | Inr score \<Rightarrow>
          score_chunks query_lower query_tokens kb
            (if score \<ge> 3 then scored_chunks @ [(score, chunk)] else scored_chunks))"

text \<open>
  \<open>list.sort(key=lambda x: x[0], reverse=True)\<close>: Python's sort is stable, also with
  \<open>reverse=True\<close>, so it is the stable sort by descending score.
\<close>

definition sort_desc :: "(int \<times> chunk) list \<Rightarrow> (int \<times> chunk) list" where
  "sort_desc xs = sort_key (\<lambda>x. - fst x) xs"

text \<open>The slice \<open>xs[:k]\<close>; a negative \<open>k\<close> counts from the end.\<close>

definition slice_to :: "int \<Rightarrow> 'a list \<Rightarrow> 'a list" where
  "slice_to k xs = (if k \<ge> 0 then take (nat k) xs else take (length xs - nat (- k)) xs)"

definition weighted_keyword_search :: "string \<Rightarrow> chunk list \<Rightarrow> int \<Rightarrow> error + chunk list" where
  "weighted_keyword_search query knowledge_base top_k =
     (let query_lower = lower query;
          query_tokens = tokenize_query query
      in if query_tokens = [] then Inr []
         else (case score_chunks query_lower query_tokens knowledge_base [] of
                 Inl e \<Rightarrow> Inl e
               | Inr scored_chunks \<Rightarrow> Inr (map snd (slice_to top_k (sort_desc scored_chunks)))))"

section \<open>Context assembly\<close>

function str_nat :: "nat \<Rightarrow> string" where
  "str_nat n = (if n < 10 then [char_of (48 + n)] else str_nat (n div 10) @ [char_of (48 + n mod 10)])"
  by pat_completeness auto
termination
  by (relation "measure id") auto

definition str_int :: "int \<Rightarrow> string" where
  "str_int i = (if i < 0 then CHR ''-'' # str_nat (nat (- i)) else str_nat (nat i))"

definition NO_CONTEXT :: string where
  "NO_CONTEXT = ''No relevant context found.''"

text \<open>One section: the attribution header, a newline, and the text cut at 800 characters.\<close>

definition context_part :: "nat \<Rightarrow> chunk \<Rightarrow> string" where
  "context_part i chunk =
     (let source = (case c_source chunk of None \<Rightarrow> ''Unknown'' | Some s \<Rightarrow> s);
          page = (case c_page chunk of None \<Rightarrow> ''?'' | Some p \<Rightarrow> str_int p);
          txt = take 800 (case c_text chunk of None \<Rightarrow> [] | Some t \<Rightarrow> t)
      in ''[Source '' @ str_nat i @ '': '' @ source @ '', Page '' @ page @ '']'' @ [CHR 0x0A] @ txt)"

text \<open>The loop over \<open>enumerate(chunks, 1)\<close>, appending to \<open>context_parts\<close>.\<close>

fun context_loop :: "nat \<Rightarrow> chunk list \<Rightarrow> string list \<Rightarrow> string list" where
  "context_loop i [] context_parts = context_parts"
| "context_loop i (chunk # chunks) context_parts =
     context_loop (Suc i) chunks (context_parts @ [context_part i chunk])"

definition format_context :: "chunk list \<Rightarrow> string" where
  "format_context chunks =
     (if chunks = [] then NO_CONTEXT
      else py_join [CHR 0x0A, CHR 0x0A] (context_loop 1 chunks []))"

section \<open>The parts of a score\<close>

text \<open>
  Names for the conditions and amounts the scoring code works with, so that the theorems
  can speak about them. \<open>score_chunk_sum\<close> below shows that the score the code computes is
  the sum of the three parts.
\<close>

definition platform_of :: "chunk \<Rightarrow> string" where
  "platform_of chunk = (case c_platform chunk of None \<Rightarrow> ''UNKNOWN'' | Some p \<Rightarrow> p)"

definition platform_match :: "string \<Rightarrow> chunk \<Rightarrow> bool" where
  "platform_match query_lower chunk =
     (platform_of chunk \<noteq> ''UNKNOWN'' \<and> py_in (lower (platform_of chunk)) query_lower)"

definition wrong_platform :: "string \<Rightarrow> chunk \<Rightarrow> bool" where
  "wrong_platform query_lower chunk =
     list_ex (\<lambda>pt. py_in pt query_lower \<and> \<not> py_in pt (lower (platform_of chunk))) PLATFORM_FORMS"

definition platform_adjust :: "string \<Rightarrow> chunk \<Rightarrow> int" where
  "platform_adjust query_lower chunk =
     (if platform_match query_lower chunk then 10
      else if platform_of chunk \<noteq> ''UNKNOWN'' \<and> wrong_platform query_lower chunk then - 5
      else 0)"

definition phrase_bonus :: "string list \<Rightarrow> string \<Rightarrow> int" where
  "phrase_bonus query_tokens text_lower =
     (if length query_tokens \<ge> 2 \<and> py_in (py_join '' '' (take 3 query_tokens)) text_lower
      then 5 else 0)"

text \<open>The score of a chunk that has one, and the scored candidates of a corpus.\<close>

definition the_score :: "string \<Rightarrow> string list \<Rightarrow> chunk \<Rightarrow> int" where
  "the_score ql toks c = (case score_chunk ql toks c of Inr s \<Rightarrow> s | Inl _ \<Rightarrow> 0)"

definition retained :: "string \<Rightarrow> chunk list \<Rightarrow> (int \<times> chunk) list" where
  "retained q kb = filter (\<lambda>p. 3 \<le> fst p)
     (map (\<lambda>c. (the_score (lower q) (tokenize_query q) c, c)) kb)"

section \<open>Example chunks\<close>

definition ex_chunk :: "string \<Rightarrow> string \<Rightarrow> string \<Rightarrow> chunk" where
  "ex_chunk i t p =
     \<lparr>c_id = Some i, c_text = Some t, c_source = Some ''TM.pdf'', c_page = Some 1,
      c_platform = Some p\<rparr>"

text \<open>A chunk with a long text and no source, page or platform.\<close>

definition ex_bare :: chunk where
  "ex_bare = \<lparr>c_id = None, c_text = Some (replicate 1000 (CHR ''A'')), c_source = None,
              c_page = None, c_platform = None\<rparr>"

text \<open>A chunk with an empty text, and one without a text field.\<close>

definition ex_empty :: chunk where
  "ex_empty = \<lparr>c_id = Some ''e'', c_text = Some [], c_source = Some ''TM.pdf'', c_page = Some 2,
               c_platform = Some ''AH-1''\<rparr>"

definition ex_no_text :: chunk where
  "ex_no_text = \<lparr>c_id = Some ''n'', c_text = None, c_source = Some ''TM.pdf'', c_page = Some 3,
                 c_platform = Some ''AH-1''\<rparr>"

section \<open>Queries made of stopwords\<close>

text \<open>
  \<open>str.split()\<close>: the maximal runs of characters that are not whitespace. A query consists
  solely of stopwords when each of these words is a stopword, whatever its case; the empty
  query and the queries of whitespace have no words at all.
\<close>

definition split_ws :: "string \<Rightarrow> string list" where
  "split_ws s = runs (\<lambda>c. \<not> is_space c) s"

definition stopword_query :: "string \<Rightarrow> bool" where
  "stopword_query query = list_all (\<lambda>w. lower w \<in> set STOPWORDS) (split_ws query)"

section \<open>Substring containment\<close>

lemma py_in_sublist: "py_in t s = sublist t s"
  by (induction s) (auto simp: sublist_Cons_right)

lemma py_in_trans: "py_in a b \<Longrightarrow> py_in b c \<Longrightarrow> py_in a c"
  unfolding py_in_sublist by (rule sublist_order.order.trans)

section \<open>The score as a sum\<close>

lemma penalty_scan_eq:
  "penalty_scan ql pl pts s =
     (if list_ex (\<lambda>pt. py_in pt ql \<and> \<not> py_in pt pl) pts then s - 5 else s)"
  by (induction pts) auto

lemma score_chunk_sum:
  "c_text c = Some txt \<Longrightarrow>
   score_chunk ql toks c =
     Inr (keyword_score toks (lower txt) + platform_adjust ql c + phrase_bonus toks (lower txt))"
  by (simp add: score_chunk_def Let_def penalty_scan_eq platform_adjust_def platform_match_def
        wrong_platform_def platform_of_def phrase_bonus_def)

lemma score_chunk_None: "c_text c = None \<Longrightarrow> score_chunk ql toks c = Inl KeyError"
  by (simp add: score_chunk_def)

lemma fold_add_nonneg:
  "(0::int) \<le> a \<Longrightarrow> 0 \<le> fold (\<lambda>token score. score + int (f token)) ts a"
  by (induction ts arbitrary: a) auto

lemma keyword_score_nonneg: "0 \<le> keyword_score toks txt"
  unfolding keyword_score_def by (rule fold_add_nonneg) simp

lemma fold_add_shift:
  "fold (\<lambda>token score. score + int (f token)) ts a = a + (\<Sum>t\<leftarrow>ts. int (f t))"
  by (induction ts arbitrary: a) auto

lemma keyword_score_sum: "keyword_score toks txt = (\<Sum>t\<leftarrow>toks. int (count_matches t txt))"
  by (simp add: keyword_score_def fold_add_shift)

lemma score_chunk_the_score:
  "c_text c \<noteq> None \<Longrightarrow> score_chunk ql toks c = Inr (the_score ql toks c)"
  by (auto simp: the_score_def score_chunk_sum)

lemma platform_adjust_cases:
  "platform_adjust ql c = 10 \<and> platform_match ql c
   \<or> (platform_adjust ql c = 0 \<or> platform_adjust ql c = - 5) \<and> \<not> platform_match ql c"
  by (simp add: platform_adjust_def)

lemma phrase_bonus_range: "phrase_bonus toks tx = 0 \<or> phrase_bonus toks tx = 5"
  by (simp add: phrase_bonus_def)

section \<open>The shape of a ranking\<close>

text \<open>
  When the search returns, every chunk it scored has a text, and the result is a prefix of
  the stably sorted list of the candidates that reach the threshold.
\<close>

lemma score_chunks_Inr:
  "score_chunks ql toks kb acc = Inr scored \<Longrightarrow>
     (\<forall>c\<in>set kb. c_text c \<noteq> None)
     \<and> scored = acc @ filter (\<lambda>p. 3 \<le> fst p) (map (\<lambda>c. (the_score ql toks c, c)) kb)"
proof (induction kb arbitrary: acc)
  case Nil
  then show ?case by simp
next
  case (Cons c kb)
  show ?case
  proof (cases "c_text c")
    case None
    with Cons.prems show ?thesis by (simp add: score_chunk_None)
  next
    case (Some tx)
    then obtain s where s: "score_chunk ql toks c = Inr s"
      by (simp add: score_chunk_sum)
    with Cons.prems Cons.IH [of "if 3 \<le> s then acc @ [(s, c)] else acc"] Some
    show ?thesis by (auto simp: the_score_def)
  qed
qed

lemma score_chunks_total:
  "\<forall>c\<in>set kb. c_text c \<noteq> None \<Longrightarrow> \<exists>scored. score_chunks ql toks kb acc = Inr scored"
proof (induction kb arbitrary: acc)
  case Nil
  then show ?case by simp
next
  case (Cons c kb)
  then obtain tx where "c_text c = Some tx" by auto
  then obtain s where "score_chunk ql toks c = Inr s" by (simp add: score_chunk_sum)
  with Cons show ?case by simp
qed

lemma slice_to_take: "\<exists>m. slice_to k xs = take m xs \<and> (0 \<le> k \<longrightarrow> m \<le> nat k)"
  by (auto simp: slice_to_def)

lemma search_Inr:
  assumes "weighted_keyword_search q kb k = Inr res"
  shows "\<exists>m. res = map snd (take m (sort_desc (filter (\<lambda>p. 3 \<le> fst p)
            (map (\<lambda>c. (the_score (lower q) (tokenize_query q) c, c)) kb))))
            \<and> (0 \<le> k \<longrightarrow> m \<le> nat k)"
proof (cases "tokenize_query q = []")
  case True
  with assms have "res = []" by (simp add: weighted_keyword_search_def)
  then have "res = map snd (take 0 (sort_desc (filter (\<lambda>p. 3 \<le> fst p)
            (map (\<lambda>c. (the_score (lower q) (tokenize_query q) c, c)) kb))))
            \<and> (0 \<le> k \<longrightarrow> 0 \<le> nat k)" by simp
  then show ?thesis by blast
next
  case False
  with assms obtain scored where
    sc: "score_chunks (lower q) (tokenize_query q) kb [] = Inr scored"
    and res: "res = map snd (slice_to k (sort_desc scored))"
    by (auto simp: weighted_keyword_search_def Let_def split: sum.splits)
  from score_chunks_Inr [OF sc] have
    "scored = filter (\<lambda>p. 3 \<le> fst p) (map (\<lambda>c. (the_score (lower q) (tokenize_query q) c, c)) kb)"
    by simp
  with res slice_to_take [of k "sort_desc scored"] show ?thesis by auto
qed

lemma search_Inr_text:
  assumes "weighted_keyword_search q kb k = Inr res" "tokenize_query q \<noteq> []"
  shows "\<forall>c\<in>set kb. c_text c \<noteq> None"
proof -
  from assms obtain scored where
    sc: "score_chunks (lower q) (tokenize_query q) kb [] = Inr scored"
    by (auto simp: weighted_keyword_search_def Let_def split: sum.splits)
  from score_chunks_Inr [OF sc] show ?thesis by simp
qed

lemma retained_snd: "map snd (retained q kb) = filter (\<lambda>c. 3 \<le> the_score (lower q) (tokenize_query q) c) kb"
  unfolding retained_def by (induction kb) auto

lemma retained_fst: "p \<in> set (retained q kb) \<Longrightarrow>
  fst p = the_score (lower q) (tokenize_query q) (snd p) \<and> 3 \<le> fst p \<and> snd p \<in> set kb"
  unfolding retained_def by auto

lemma retained_filter:
  "map snd (filter (\<lambda>p. fst p = s) (retained q kb)) =
   filter (\<lambda>c. the_score (lower q) (tokenize_query q) c = s \<and> 3 \<le> s) kb"
  unfolding retained_def by (induction kb) auto

lemma sort_desc_stable: "filter (\<lambda>p. fst p = s) (sort_desc xs) = filter (\<lambda>p. fst p = s) xs"
proof -
  have "filter (\<lambda>p. - fst p = - s) (sort_key (\<lambda>x. - fst x) xs) = filter (\<lambda>p. - fst p = - s) xs"
    by (rule sort_key_stable)
  then show ?thesis by (simp add: sort_desc_def)
qed

lemma sort_desc_set: "set (sort_desc xs) = set xs"
  by (simp add: sort_desc_def)

lemma sort_desc_mset: "mset (sort_desc xs) = mset xs"
  by (simp add: sort_desc_def)

lemma sort_desc_nth:
  assumes "i \<le> j" "j < length (sort_desc xs)"
  shows "fst (sort_desc xs ! j) \<le> fst (sort_desc xs ! i)"
proof -
  have "sorted (map (\<lambda>x. - fst x) (sort_desc xs))"
    by (simp add: sort_desc_def)
  with assms have "map (\<lambda>x. - fst x) (sort_desc xs) ! i \<le> map (\<lambda>x. - fst x) (sort_desc xs) ! j"
    by (intro sorted_nth_mono) auto
  with assms show ?thesis by simp
qed

lemma map_snd_filter_fst:
  assumes "\<forall>p\<in>set xs. fst p = f (snd p)"
  shows "filter (\<lambda>c. f c = s) (map snd xs) = map snd (filter (\<lambda>p. fst p = s) xs)"
  using assms by (induction xs) auto

lemma search_form:
  assumes "weighted_keyword_search q kb k = Inr res"
  shows "\<exists>m. res = map snd (take m (sort_desc (retained q kb))) \<and> (0 \<le> k \<longrightarrow> m \<le> nat k)"
  using search_Inr [OF assms] by (simp add: retained_def)

lemma stable_the_score:
  assumes "weighted_keyword_search q kb k = Inr res"
  shows "prefix (filter (\<lambda>c. the_score (lower q) (tokenize_query q) c = s) res)
                (filter (\<lambda>c. the_score (lower q) (tokenize_query q) c = s \<and> 3 \<le> s) kb)"
proof -
  let ?f = "the_score (lower q) (tokenize_query q)"
  from search_form [OF assms] obtain m where
    res: "res = map snd (take m (sort_desc (retained q kb)))" by blast
  have fst: "\<forall>p\<in>set (take m (sort_desc (retained q kb))). fst p = ?f (snd p)"
    using retained_fst [of _ q kb] by (auto dest!: in_set_takeD simp: sort_desc_set)
  have "filter (\<lambda>c. ?f c = s) res
        = map snd (filter (\<lambda>p. fst p = s) (take m (sort_desc (retained q kb))))"
    unfolding res using fst by (rule map_snd_filter_fst)
  moreover have "prefix (filter (\<lambda>p. fst p = s) (take m (sort_desc (retained q kb))))
                        (filter (\<lambda>p. fst p = s) (sort_desc (retained q kb)))"
    by (intro filter_mono_prefix take_is_prefix)
  then have "prefix (map snd (filter (\<lambda>p. fst p = s) (take m (sort_desc (retained q kb)))))
                    (map snd (filter (\<lambda>p. fst p = s) (retained q kb)))"
    unfolding sort_desc_stable by (rule map_mono_prefix)
  ultimately show ?thesis by (simp add: retained_filter)
qed

lemma search_subset:
  assumes "weighted_keyword_search q kb k = Inr res"
  shows "mset res \<subseteq># mset kb"
proof -
  from search_form [OF assms] obtain m where
    res: "res = map snd (take m (sort_desc (retained q kb)))" by blast
  have "mset (take m (sort_desc (retained q kb))) \<subseteq># mset (sort_desc (retained q kb))"
    by (metis append_take_drop_id mset_append mset_subset_eq_add_left)
  then have "mset res \<subseteq># mset (map snd (retained q kb))"
    unfolding res mset_map sort_desc_mset by (rule image_mset_subseteq_mono)
  also have "\<dots> \<subseteq># mset kb"
    unfolding retained_snd by simp
  finally show ?thesis .
qed

lemma search_scores:
  assumes "weighted_keyword_search q kb k = Inr res" "c \<in> set res"
  shows "\<exists>s. score_chunk (lower q) (tokenize_query q) c = Inr s \<and> 3 \<le> s"
proof -
  from search_form [OF assms(1)] obtain m where
    res: "res = map snd (take m (sort_desc (retained q kb)))" by blast
  from assms(2) obtain p where p: "p \<in> set (retained q kb)" "c = snd p"
    unfolding res by (auto dest!: in_set_takeD simp: sort_desc_set)
  from assms have "tokenize_query q \<noteq> []"
    by (auto simp: weighted_keyword_search_def)
  from search_Inr_text [OF assms(1) this] retained_fst [OF p(1)] p(2)
  show ?thesis by (auto simp: score_chunk_the_score)
qed

section \<open>The tokenizer on the reference query\<close>

text \<open>
  Claim C8. Tokenizing \<open>"AH-1 oil pressure"\<close> yields exactly \<open>["ah-1", "oil", "pressure"]\<close>, in
  that order. Neither \<open>"ah"\<close> nor \<open>"1"\<close> is a token: both are generic candidates of the query,
  and both are among the parts of the extracted platform token \<open>"ah-1"\<close>, which the filter
  removes.
\<close>

theorem tokenize_query_ah1_oil_pressure:
  "tokenize_query ''AH-1 oil pressure'' = [''ah-1'', ''oil'', ''pressure'']
   \<and> ''ah'' \<notin> set (tokenize_query ''AH-1 oil pressure'')
   \<and> ''1'' \<notin> set (tokenize_query ''AH-1 oil pressure'')
   \<and> findall_platform (lower ''AH-1 oil pressure'') = [''ah-1'']
   \<and> concat (map findall_parts (findall_platform (lower ''AH-1 oil pressure''))) = [''ah'', ''1'']
   \<and> runs is_alnum (lower ''AH-1 oil pressure'') = [''ah'', ''1'', ''oil'', ''pressure'']"
  by code_simp

section \<open>Platform bonus and penalty\<close>

text \<open>
  Claim C3. Let a chunk carry a platform tag other than \<open>UNKNOWN\<close>. If the lowercase tag is a
  substring of the lowercased query, the score is the keyword score plus exactly 10 (plus
  the phrase bonus, which does not depend on the platform). Otherwise, if the lowercased
  query contains a surface form of the fixed list that is not a substring of the lowercase
  tag, the score is the keyword score minus exactly 5, however many forms mismatch.
  Otherwise the platform leaves the score unchanged.
\<close>

theorem platform_bonus_and_penalty:
  assumes "c_platform c = Some p" and "p \<noteq> ''UNKNOWN''" and "c_text c = Some tx"
  shows "(py_in (lower p) (lower q) \<longrightarrow>
            score_chunk (lower q) toks c
              = Inr (keyword_score toks (lower tx) + 10 + phrase_bonus toks (lower tx)))
       \<and> (\<not> py_in (lower p) (lower q)
            \<and> (\<exists>pt\<in>set [''ah-1'', ''rc-12'', ''uh-1'', ''oh-58'', ''c-12'', ''ch-47'', ''uh-60''].
                  py_in pt (lower q) \<and> \<not> py_in pt (lower p)) \<longrightarrow>
            score_chunk (lower q) toks c
              = Inr (keyword_score toks (lower tx) - 5 + phrase_bonus toks (lower tx)))
       \<and> (\<not> py_in (lower p) (lower q)
            \<and> \<not> (\<exists>pt\<in>set [''ah-1'', ''rc-12'', ''uh-1'', ''oh-58'', ''c-12'', ''ch-47'', ''uh-60''].
                  py_in pt (lower q) \<and> \<not> py_in pt (lower p)) \<longrightarrow>
            score_chunk (lower q) toks c
              = Inr (keyword_score toks (lower tx) + phrase_bonus toks (lower tx)))"
  using assms
  by (simp add: score_chunk_sum platform_adjust_def platform_match_def platform_of_def
        wrong_platform_def PLATFORM_FORMS_def)

theorem platform_bonus_and_penalty_witness:
  "c_platform (ex_chunk ''1'' ''oil pressure'' ''AH-1'') = Some ''AH-1''
   \<and> py_in (lower ''AH-1'') (lower ''AH-1 oil'')
   \<and> score_chunk (lower ''AH-1 oil'') (tokenize_query ''AH-1 oil'')
         (ex_chunk ''1'' ''oil pressure'' ''AH-1'')
       = Inr (keyword_score (tokenize_query ''AH-1 oil'') (lower ''oil pressure'') + 10
              + phrase_bonus (tokenize_query ''AH-1 oil'') (lower ''oil pressure''))
   \<and> score_chunk (lower ''AH-1 oil'') (tokenize_query ''AH-1 oil'')
         (ex_chunk ''1'' ''oil pressure'' ''AH-1'') = Inr 11"
proof -
  have 1: "c_platform (ex_chunk ''1'' ''oil pressure'' ''AH-1'') = Some ''AH-1''"
    by (simp add: ex_chunk_def)
  have 2: "''AH-1'' \<noteq> ''UNKNOWN''" by simp
  have 3: "c_text (ex_chunk ''1'' ''oil pressure'' ''AH-1'') = Some ''oil pressure''"
    by (simp add: ex_chunk_def)
  have 4: "py_in (lower ''AH-1'') (lower ''AH-1 oil'')" by code_simp
  have 5: "score_chunk (lower ''AH-1 oil'') (tokenize_query ''AH-1 oil'')
         (ex_chunk ''1'' ''oil pressure'' ''AH-1'') = Inr 11" by code_simp
  from platform_bonus_and_penalty [OF 1 2 3, of "''AH-1 oil''" "tokenize_query ''AH-1 oil''"] 1 4 5
  show ?thesis by blast
qed

text \<open>
  Claim C10. The bonus test is substring containment, not equality of tags: whenever the
  lowercased query contains \<open>rc-12\<close>, a chunk tagged \<open>C-12\<close> passes the test of the bonus
  branch, so the penalty branch (its \<open>elif\<close>) is not entered, and the chunk gets the full
  bonus of 10, the score a chunk tagged \<open>RC-12\<close> with the same text gets.
\<close>

theorem c12_chunk_bonus_on_rc12_query:
  assumes "py_in ''rc-12'' (lower q)" and "c_platform c = Some ''C-12''" and "c_text c = Some tx"
  shows "(''C-12'' \<noteq> ''UNKNOWN'' \<and> py_in (lower ''C-12'') (lower q))
       \<and> score_chunk (lower q) toks c
           = Inr (keyword_score toks (lower tx) + 10 + phrase_bonus toks (lower tx))
       \<and> score_chunk (lower q) toks (c\<lparr>c_platform := Some ''RC-12''\<rparr>)
           = score_chunk (lower q) toks c"
proof -
  have l: "lower ''C-12'' = ''c-12''" "lower ''RC-12'' = ''rc-12''" by code_simp+
  have "py_in ''c-12'' ''rc-12''" by code_simp
  from this assms(1) have c: "py_in ''c-12'' (lower q)" by (rule py_in_trans)
  from assms c l show ?thesis
    by (simp add: score_chunk_sum platform_adjust_def platform_match_def platform_of_def)
qed

theorem c12_chunk_bonus_on_rc12_query_witness:
  "py_in ''rc-12'' (lower ''RC-12 fuel'')
   \<and> score_chunk (lower ''RC-12 fuel'') (tokenize_query ''RC-12 fuel'')
         (ex_chunk ''1'' ''fuel'' ''C-12'')
       = Inr (keyword_score (tokenize_query ''RC-12 fuel'') (lower ''fuel'') + 10
              + phrase_bonus (tokenize_query ''RC-12 fuel'') (lower ''fuel''))
   \<and> score_chunk (lower ''RC-12 fuel'') (tokenize_query ''RC-12 fuel'')
         (ex_chunk ''1'' ''fuel'' ''C-12'') = Inr 11"
proof -
  have 1: "py_in ''rc-12'' (lower ''RC-12 fuel'')" by code_simp
  have 2: "c_platform (ex_chunk ''1'' ''fuel'' ''C-12'') = Some ''C-12''"
    by (simp add: ex_chunk_def)
  have 3: "c_text (ex_chunk ''1'' ''fuel'' ''C-12'') = Some ''fuel''"
    by (simp add: ex_chunk_def)
  have 4: "score_chunk (lower ''RC-12 fuel'') (tokenize_query ''RC-12 fuel'')
         (ex_chunk ''1'' ''fuel'' ''C-12'') = Inr 11" by code_simp
  from c12_chunk_bonus_on_rc12_query [OF 1 2 3, of "tokenize_query ''RC-12 fuel''"] 1 4
  show ?thesis by blast
qed

section \<open>Properties of the ranking\<close>

text \<open>
  Claim C2, as the code has it. The scorer has one platform test: the chunk's tag is not
  \<open>UNKNOWN\<close> and its lowercase form is a substring of the lowercased query. On a query that
  names \<open>RC-12\<close>, a chunk tagged \<open>C-12\<close> passes it like a chunk tagged \<open>RC-12\<close>. A chunk \<open>a\<close>
  of the corpus that passes the test has a strictly higher score than any chunk \<open>b\<close> that
  fails it and has the same keyword score: the bonus of 10 exceeds the phrase bonus of 5,
  the most \<open>b\<close> can gain. So whenever \<open>b\<close> is in the ranked result, \<open>a\<close> is in it too, at
  an earlier position.
\<close>

theorem platform_match_outranks:
  assumes "weighted_keyword_search q kb k = Inr res"
    and "a \<in> set kb" and "c_text a = Some ta" and "c_text b = Some tb"
    and "platform_match (lower q) a" and "\<not> platform_match (lower q) b"
    and "keyword_score (tokenize_query q) (lower ta) = keyword_score (tokenize_query q) (lower tb)"
    and "b \<in> set res"
  shows "(\<exists>sa sb. score_chunk (lower q) (tokenize_query q) a = Inr sa
                \<and> score_chunk (lower q) (tokenize_query q) b = Inr sb \<and> sb < sa)
       \<and> (\<exists>i j. i < j \<and> j < length res \<and> res ! i = a \<and> res ! j = b)"
proof -
  let ?f = "the_score (lower q) (tokenize_query q)"
  let ?xs = "sort_desc (retained q kb)"
  have sa: "score_chunk (lower q) (tokenize_query q) a = Inr (?f a)"
    and sb: "score_chunk (lower q) (tokenize_query q) b = Inr (?f b)"
    using assms(3,4) by (simp_all add: score_chunk_the_score)
  have fa: "?f a = keyword_score (tokenize_query q) (lower ta) + 10
                   + phrase_bonus (tokenize_query q) (lower ta)"
    using assms(3,5) platform_adjust_cases [of "lower q" a]
    by (simp add: the_score_def score_chunk_sum)
  have fb: "?f b \<le> keyword_score (tokenize_query q) (lower tb)
                   + phrase_bonus (tokenize_query q) (lower tb)"
    using assms(4,6) platform_adjust_cases [of "lower q" b]
    by (auto simp add: the_score_def score_chunk_sum)
  from fa fb assms(7) phrase_bonus_range [of "tokenize_query q" "lower ta"]
    phrase_bonus_range [of "tokenize_query q" "lower tb"]
  have lt: "?f b < ?f a" by auto
  from fa keyword_score_nonneg [of "tokenize_query q" "lower ta"]
    phrase_bonus_range [of "tokenize_query q" "lower ta"]
  have "3 \<le> ?f a" by auto
  with assms(2) have "(?f a, a) \<in> set ?xs"
    by (auto simp: sort_desc_set retained_def)
  then obtain i where i: "i < length ?xs" "?xs ! i = (?f a, a)"
    by (auto simp: in_set_conv_nth)
  from search_form [OF assms(1)] obtain m where res: "res = map snd (take m ?xs)" by blast
  from assms(8) obtain j where j: "j < length res" "res ! j = b"
    by (auto simp: in_set_conv_nth)
  then have jm: "j < m" "j < length ?xs" by (simp_all add: res)
  with j have bj: "snd (?xs ! j) = b" by (simp add: res)
  have "?xs ! j \<in> set (retained q kb)"
    using jm nth_mem [of j ?xs] by (simp add: sort_desc_set)
  from retained_fst [OF this] bj have fj: "fst (?xs ! j) = ?f b" by simp
  have "i < j"
  proof (rule ccontr)
    assume "\<not> i < j"
    then have "j \<le> i" by simp
    from sort_desc_nth [OF this i(1)] i(2) fj lt show False by simp
  qed
  moreover from this jm i(2) have "res ! i = a" by (simp add: res)
  ultimately show ?thesis using j sa sb lt by blast
qed


theorem platform_match_outranks_witness:
  "weighted_keyword_search ''AH-1 oil''
     [ex_chunk ''1'' ''oil, oil, oil'' ''UNKNOWN'', ex_chunk ''2'' ''oil oil. oil'' ''AH-1''] 3
     = Inr [ex_chunk ''2'' ''oil oil. oil'' ''AH-1'', ex_chunk ''1'' ''oil, oil, oil'' ''UNKNOWN'']
   \<and> (\<exists>sa sb. score_chunk (lower ''AH-1 oil'') (tokenize_query ''AH-1 oil'')
                  (ex_chunk ''2'' ''oil oil. oil'' ''AH-1'') = Inr sa
              \<and> score_chunk (lower ''AH-1 oil'') (tokenize_query ''AH-1 oil'')
                  (ex_chunk ''1'' ''oil, oil, oil'' ''UNKNOWN'') = Inr sb
              \<and> sb < sa)"
proof -
  let ?a = "ex_chunk ''2'' ''oil oil. oil'' ''AH-1''"
  let ?b = "ex_chunk ''1'' ''oil, oil, oil'' ''UNKNOWN''"
  have 1: "weighted_keyword_search ''AH-1 oil'' [?b, ?a] 3 = Inr [?a, ?b]" by code_simp
  have 2: "?a \<in> set [?b, ?a]" by simp
  have 3: "c_text ?a = Some ''oil oil. oil''" by (simp add: ex_chunk_def)
  have 4: "c_text ?b = Some ''oil, oil, oil''" by (simp add: ex_chunk_def)
  have 5: "platform_match (lower ''AH-1 oil'') ?a" by code_simp
  have 6: "\<not> platform_match (lower ''AH-1 oil'') ?b" by code_simp
  have 7: "keyword_score (tokenize_query ''AH-1 oil'') (lower ''oil oil. oil'')
           = keyword_score (tokenize_query ''AH-1 oil'') (lower ''oil, oil, oil'')" by code_simp
  have 8: "?b \<in> set [?a, ?b]" by simp
  from platform_match_outranks [OF 1 2 3 4 5 6 7 8] 1 show ?thesis by blast
qed

text \<open>
  On the query \<open>"RC-12 fuel capacity"\<close>, a chunk tagged \<open>C-12\<close> whose text holds the phrase is
  ranked above a chunk tagged \<open>RC-12\<close> with the same three keyword matches: both get the
  bonus, and the phrase decides.
\<close>

theorem c12_chunk_outranks_rc12_chunk_counterexample:
  "c_platform (ex_chunk ''1'' ''capacity fuel rc-12'' ''RC-12'') = Some ''RC-12''
   \<and> c_platform (ex_chunk ''2'' ''rc-12 fuel capacity'' ''C-12'') = Some ''C-12''
   \<and> tokenize_query ''RC-12 fuel capacity'' = [''rc-12'', ''fuel'', ''capacity'']
   \<and> keyword_score (tokenize_query ''RC-12 fuel capacity'') (lower ''capacity fuel rc-12'') = 3
   \<and> keyword_score (tokenize_query ''RC-12 fuel capacity'') (lower ''rc-12 fuel capacity'') = 3
   \<and> score_chunk (lower ''RC-12 fuel capacity'') (tokenize_query ''RC-12 fuel capacity'')
         (ex_chunk ''1'' ''capacity fuel rc-12'' ''RC-12'') = Inr 13
   \<and> score_chunk (lower ''RC-12 fuel capacity'') (tokenize_query ''RC-12 fuel capacity'')
         (ex_chunk ''2'' ''rc-12 fuel capacity'' ''C-12'') = Inr 18
   \<and> weighted_keyword_search ''RC-12 fuel capacity''
         [ex_chunk ''1'' ''capacity fuel rc-12'' ''RC-12'',
          ex_chunk ''2'' ''rc-12 fuel capacity'' ''C-12''] 2
       = Inr [ex_chunk ''2'' ''rc-12 fuel capacity'' ''C-12'',
              ex_chunk ''1'' ''capacity fuel rc-12'' ''RC-12'']"
  by code_simp

text \<open>
  Claim C4. The ranking is stable. For every score \<open>s\<close>, the chunks of the result with score
  \<open>s\<close>, in the order of the result, are an initial part of the chunks of the corpus with
  score \<open>s\<close>, in the order of the corpus: equally scored chunks are never reordered, and the
  cut at \<open>top_k\<close> keeps the earliest of them.
\<close>

theorem ranking_ties_keep_corpus_order:
  assumes "weighted_keyword_search q kb k = Inr res"
  shows "prefix (filter (\<lambda>c. score_chunk (lower q) (tokenize_query q) c = Inr s) res)
                (filter (\<lambda>c. score_chunk (lower q) (tokenize_query q) c = Inr s) kb)"
proof (cases "tokenize_query q = []")
  case True
  with assms have "res = []" by (simp add: weighted_keyword_search_def)
  then show ?thesis by simp
next
  case False
  let ?f = "the_score (lower q) (tokenize_query q)"
  let ?g = "score_chunk (lower q) (tokenize_query q)"
  from search_Inr_text [OF assms False] have kb: "\<forall>c\<in>set kb. ?g c = Inr (?f c)"
    by (simp add: score_chunk_the_score)
  from search_form [OF assms] obtain m where
    res: "res = map snd (take m (sort_desc (retained q kb)))" by blast
  have "set res \<subseteq> set kb"
    unfolding res using retained_fst [of _ q kb]
    by (auto dest!: in_set_takeD simp: sort_desc_set)
  with kb have r: "\<forall>c\<in>set res. ?g c = Inr (?f c)" by blast
  have 1: "filter (\<lambda>c. ?g c = Inr s) res = filter (\<lambda>c. ?f c = s) res"
    using r by (intro filter_cong) auto
  show ?thesis
  proof (cases "3 \<le> s")
    case True
    have "filter (\<lambda>c. ?g c = Inr s) kb = filter (\<lambda>c. ?f c = s \<and> 3 \<le> s) kb"
      using kb True by (intro filter_cong) auto
    with 1 stable_the_score [OF assms, of s] show ?thesis by simp
  next
    case False
    with stable_the_score [OF assms, of s] have "filter (\<lambda>c. ?f c = s) res = []" by simp
    with 1 show ?thesis by simp
  qed
qed

theorem ranking_ties_keep_corpus_order_witness:
  "weighted_keyword_search ''oil pressure''
     [ex_chunk ''1'' ''fuel'' ''UNKNOWN'', ex_chunk ''2'' ''oil pressure'' ''AH-1'',
      ex_chunk ''3'' ''oil pressure'' ''UH-1''] 2
     = Inr [ex_chunk ''2'' ''oil pressure'' ''AH-1'', ex_chunk ''3'' ''oil pressure'' ''UH-1'']
   \<and> prefix
        (filter (\<lambda>c. score_chunk (lower ''oil pressure'') (tokenize_query ''oil pressure'') c = Inr 7)
           [ex_chunk ''2'' ''oil pressure'' ''AH-1'', ex_chunk ''3'' ''oil pressure'' ''UH-1''])
        (filter (\<lambda>c. score_chunk (lower ''oil pressure'') (tokenize_query ''oil pressure'') c = Inr 7)
           [ex_chunk ''1'' ''fuel'' ''UNKNOWN'', ex_chunk ''2'' ''oil pressure'' ''AH-1'',
            ex_chunk ''3'' ''oil pressure'' ''UH-1''])"
proof -
  have h: "weighted_keyword_search ''oil pressure''
     [ex_chunk ''1'' ''fuel'' ''UNKNOWN'', ex_chunk ''2'' ''oil pressure'' ''AH-1'',
      ex_chunk ''3'' ''oil pressure'' ''UH-1''] 2
     = Inr [ex_chunk ''2'' ''oil pressure'' ''AH-1'', ex_chunk ''3'' ''oil pressure'' ''UH-1'']"
    by code_simp
  from h ranking_ties_keep_corpus_order [OF h, of 7] show ?thesis by blast
qed

text \<open>
  Claim C6. The limit is the number of results asked for, so it is not negative. For
  every query and corpus and every such limit \<open>k\<close>, a ranked result has at most \<open>k\<close> chunks;
  each of them is a chunk of the corpus and is returned no more often than it occurs there
  (so a corpus without duplicates gives a result without duplicates); each has a score of
  at least 3; and the empty corpus gives the empty result.
\<close>

theorem ranking_result_bounds:
  assumes "weighted_keyword_search q kb k = Inr res" and "0 \<le> k"
  shows "int (length res) \<le> k
       \<and> set res \<subseteq> set kb
       \<and> mset res \<subseteq># mset kb
       \<and> (distinct kb \<longrightarrow> distinct res)
       \<and> (\<forall>c\<in>set res. \<exists>s. score_chunk (lower q) (tokenize_query q) c = Inr s \<and> 3 \<le> s)
       \<and> weighted_keyword_search q [] k = Inr []"
proof -
  from search_form [OF assms(1)] assms(2) obtain m where
    res: "res = map snd (take m (sort_desc (retained q kb)))" and m: "m \<le> nat k" by blast
  have "length res \<le> m" unfolding res by simp
  with m assms(2) have 1: "int (length res) \<le> k" by linarith
  have sub: "mset res \<subseteq># mset kb" by (rule search_subset [OF assms(1)])
  then have 2: "set res \<subseteq> set kb" by (rule set_mset_mono [of "mset res" "mset kb", simplified])
  have 3: "distinct kb \<longrightarrow> distinct res"
  proof
    assume "distinct kb"
    then have "distinct (map snd (retained q kb))"
      unfolding retained_snd by simp
    moreover have "mset (map snd (sort_desc (retained q kb))) = mset (map snd (retained q kb))"
      by (simp add: sort_desc_mset)
    ultimately have "distinct (map snd (sort_desc (retained q kb)))"
      using mset_eq_imp_distinct_iff by blast
    then have "distinct (take m (map snd (sort_desc (retained q kb))))"
      by (rule distinct_take)
    then show "distinct res"
      by (simp add: res take_map)
  qed
  have 4: "\<forall>c\<in>set res. \<exists>s. score_chunk (lower q) (tokenize_query q) c = Inr s \<and> 3 \<le> s"
    using search_scores [OF assms(1)] by blast
  have 5: "weighted_keyword_search q [] k = Inr []"
    by (simp add: weighted_keyword_search_def Let_def slice_to_def sort_desc_def)
  from 1 2 sub 3 4 5 show ?thesis by blast
qed

theorem ranking_result_bounds_witness:
  "weighted_keyword_search ''oil pressure''
     [ex_chunk ''1'' ''fuel'' ''UNKNOWN'', ex_chunk ''2'' ''oil pressure'' ''AH-1'',
      ex_chunk ''3'' ''oil pressure'' ''UH-1''] 1
     = Inr [ex_chunk ''2'' ''oil pressure'' ''AH-1'']
   \<and> int (length [ex_chunk ''2'' ''oil pressure'' ''AH-1'']) \<le> 1
   \<and> set [ex_chunk ''2'' ''oil pressure'' ''AH-1'']
       \<subseteq> set [ex_chunk ''1'' ''fuel'' ''UNKNOWN'', ex_chunk ''2'' ''oil pressure'' ''AH-1'',
               ex_chunk ''3'' ''oil pressure'' ''UH-1'']
   \<and> weighted_keyword_search ''oil pressure'' [] 1 = Inr []"
proof -
  have h: "weighted_keyword_search ''oil pressure''
     [ex_chunk ''1'' ''fuel'' ''UNKNOWN'', ex_chunk ''2'' ''oil pressure'' ''AH-1'',
      ex_chunk ''3'' ''oil pressure'' ''UH-1''] 1
     = Inr [ex_chunk ''2'' ''oil pressure'' ''AH-1'']"
    by code_simp
  have k: "(0::int) \<le> 1" by simp
  from h ranking_result_bounds [OF h k] show ?thesis by blast
qed

section \<open>Properties of the context assembler\<close>

lemma context_loop_eq:
  "context_loop i chunks acc = acc @ map (\<lambda>j. context_part (i + j) (chunks ! j)) [0..<length chunks]"
proof (induction chunks arbitrary: i acc)
  case Nil
  then show ?case by simp
next
  case (Cons c cs)
  have "map (\<lambda>j. context_part (i + j) ((c # cs) ! j)) [0..<length (c # cs)]
        = context_part i c # map (\<lambda>j. context_part (Suc i + j) (cs ! j)) [0..<length cs]"
    by (simp add: upt_conv_Cons map_Suc_upt [symmetric] del: upt_Suc)
  with Cons.IH [of "Suc i" "acc @ [context_part i c]"] show ?case by simp
qed

text \<open>
  Claim C9. On the empty chunk list the assembler returns exactly the sentinel
  \<open>"No relevant context found."\<close>. On a non-empty list it joins one section per chunk with a
  blank line; section \<open>i\<close> (counted from 1) is the header with the source, or \<open>Unknown\<close>
  when the chunk has none, and the page, or \<open>?\<close> when the chunk has none, followed by a
  newline and by the first 800 characters of the chunk's text, never more.
\<close>

theorem format_context_sections:
  "format_context [] = ''No relevant context found.''
   \<and> (chunks \<noteq> [] \<longrightarrow>
        (\<exists>parts. length parts = length chunks
           \<and> format_context chunks = py_join [CHR 0x0A, CHR 0x0A] parts
           \<and> (\<forall>i<length chunks. \<exists>body.
                 parts ! i =
                   ''[Source '' @ str_nat (Suc i) @ '': ''
                   @ (case c_source (chunks ! i) of None \<Rightarrow> ''Unknown'' | Some s \<Rightarrow> s)
                   @ '', Page ''
                   @ (case c_page (chunks ! i) of None \<Rightarrow> ''?'' | Some p \<Rightarrow> str_int p)
                   @ '']'' @ [CHR 0x0A] @ body
                 \<and> body = take 800 (case c_text (chunks ! i) of None \<Rightarrow> [] | Some t \<Rightarrow> t)
                 \<and> length body \<le> 800)))"
proof (intro conjI impI)
  show "format_context [] = ''No relevant context found.''"
    by (simp add: format_context_def NO_CONTEXT_def)
next
  assume ne: "chunks \<noteq> []"
  let ?parts = "map (\<lambda>j. context_part (1 + j) (chunks ! j)) [0..<length chunks]"
  have "format_context chunks = py_join [CHR 0x0A, CHR 0x0A] ?parts"
    using ne by (simp add: format_context_def context_loop_eq)
  moreover have "length ?parts = length chunks" by simp
  moreover have "\<forall>i<length chunks. \<exists>body.
                 ?parts ! i =
                   ''[Source '' @ str_nat (Suc i) @ '': ''
                   @ (case c_source (chunks ! i) of None \<Rightarrow> ''Unknown'' | Some s \<Rightarrow> s)
                   @ '', Page ''
                   @ (case c_page (chunks ! i) of None \<Rightarrow> ''?'' | Some p \<Rightarrow> str_int p)
                   @ '']'' @ [CHR 0x0A] @ body
                 \<and> body = take 800 (case c_text (chunks ! i) of None \<Rightarrow> [] | Some t \<Rightarrow> t)
                 \<and> length body \<le> 800"
    by (simp add: context_part_def Let_def)
  ultimately show "\<exists>parts. length parts = length chunks
           \<and> format_context chunks = py_join [CHR 0x0A, CHR 0x0A] parts
           \<and> (\<forall>i<length chunks. \<exists>body.
                 parts ! i =
                   ''[Source '' @ str_nat (Suc i) @ '': ''
                   @ (case c_source (chunks ! i) of None \<Rightarrow> ''Unknown'' | Some s \<Rightarrow> s)
                   @ '', Page ''
                   @ (case c_page (chunks ! i) of None \<Rightarrow> ''?'' | Some p \<Rightarrow> str_int p)
                   @ '']'' @ [CHR 0x0A] @ body
                 \<and> body = take 800 (case c_text (chunks ! i) of None \<Rightarrow> [] | Some t \<Rightarrow> t)
                 \<and> length body \<le> 800)"
    by blast
qed

theorem format_context_sections_witness:
  "[ex_bare] \<noteq> []
   \<and> format_context [ex_bare]
       = ''[Source 1: Unknown, Page ?]'' @ [CHR 0x0A] @ replicate 800 (CHR ''A'')"
proof -
  have ne: "[ex_bare] \<noteq> []" by simp
  from format_context_sections [of "[ex_bare]"] ne obtain parts where
    l: "length parts = 1"
    and f: "format_context [ex_bare] = py_join [CHR 0x0A, CHR 0x0A] parts"
    and p: "\<forall>i<length [ex_bare]. \<exists>body.
                 parts ! i =
                   ''[Source '' @ str_nat (Suc i) @ '': ''
                   @ (case c_source ([ex_bare] ! i) of None \<Rightarrow> ''Unknown'' | Some s \<Rightarrow> s)
                   @ '', Page ''
                   @ (case c_page ([ex_bare] ! i) of None \<Rightarrow> ''?'' | Some p \<Rightarrow> str_int p)
                   @ '']'' @ [CHR 0x0A] @ body
                 \<and> body = take 800 (case c_text ([ex_bare] ! i) of None \<Rightarrow> [] | Some t \<Rightarrow> t)
                 \<and> length body \<le> 800"
    by auto
  from l obtain x where x: "parts = [x]"
    by (cases parts) auto
  have s: "str_nat (Suc 0) = ''1''" by code_simp
  from p x have "x = ''[Source '' @ str_nat (Suc 0) @ '': '' @ ''Unknown'' @ '', Page '' @ ''?''
                   @ '']'' @ [CHR 0x0A] @ take 800 (replicate 1000 (CHR ''A''))"
    by (simp add: ex_bare_def)
  with f x s ne show ?thesis by simp
qed

section \<open>Chunks with an empty text\<close>

lemma count_matches_empty_text: "count_matches t [] = 0"
  by (simp add: count_matches_def match_token_def word_at_def)

lemma keyword_score_empty_text: "keyword_score toks [] = 0"
  by (simp add: keyword_score_sum count_matches_empty_text)

lemma py_join_nonempty: "2 \<le> length toks \<Longrightarrow> py_join '' '' (take 3 toks) \<noteq> []"
proof -
  assume "2 \<le> length toks"
  then obtain x y ys where "toks = x # y # ys"
    by (cases toks; cases "tl toks") auto
  then show ?thesis
    by (cases ys) auto
qed

lemma phrase_bonus_empty_text: "phrase_bonus toks [] = 0"
  using py_join_nonempty [of toks] by (simp add: phrase_bonus_def)

lemma search_total:
  assumes "\<forall>c\<in>set kb. c_text c \<noteq> None"
  shows "\<exists>res. weighted_keyword_search q kb k = Inr res"
proof -
  from score_chunks_total [OF assms, of "lower q" "tokenize_query q" "[]"]
  obtain scored where "score_chunks (lower q) (tokenize_query q) kb [] = Inr scored" by blast
  then show ?thesis by (simp add: weighted_keyword_search_def Let_def)
qed

text \<open>
  Claim C1, as the code has it. On a corpus whose chunks all have a text field, the search
  returns a ranking and raises nothing. A chunk whose text is present and empty has no
  keyword match and no phrase match, so its score is its platform adjustment alone: 10, 0
  or -5. Unless the chunk passes the platform test of the bonus, that score is below the
  threshold of 3, and the chunk is left out of every ranking by the minimum-score rule
  alone.
\<close>

theorem empty_text_scores_platform_only:
  assumes "c_text c = Some []"
  shows "keyword_score toks (lower []) = 0
       \<and> score_chunk ql toks c = Inr (platform_adjust ql c)
       \<and> (platform_adjust ql c = 10 \<or> platform_adjust ql c = 0 \<or> platform_adjust ql c = - 5)
       \<and> (\<not> platform_match ql c \<longrightarrow> platform_adjust ql c < 3)
       \<and> (\<forall>q kb k res. weighted_keyword_search q kb k = Inr res
              \<and> \<not> platform_match (lower q) c \<longrightarrow> c \<notin> set res)
       \<and> (\<forall>q kb k. (\<forall>c'\<in>set kb. c_text c' \<noteq> None)
              \<longrightarrow> (\<exists>res. weighted_keyword_search q kb k = Inr res))"
proof -
  have l: "lower [] = []" by (simp add: lower_def)
  have 1: "keyword_score toks (lower []) = 0" by (simp add: l keyword_score_empty_text)
  have 2: "\<And>ql toks. score_chunk ql toks c = Inr (platform_adjust ql c)"
    using assms by (simp add: score_chunk_sum l keyword_score_empty_text phrase_bonus_empty_text)
  have 3: "\<And>ql. platform_adjust ql c = 10 \<or> platform_adjust ql c = 0 \<or> platform_adjust ql c = - 5"
    using platform_adjust_cases [of _ c] by blast
  have 4: "\<And>ql. \<not> platform_match ql c \<Longrightarrow> platform_adjust ql c < 3"
    using platform_adjust_cases [of _ c] by fastforce
  have 5: "c \<notin> set res"
    if "weighted_keyword_search q kb k = Inr res" "\<not> platform_match (lower q) c" for q kb k res
  proof
    assume "c \<in> set res"
    from search_scores [OF that(1) this] 2 have "3 \<le> platform_adjust (lower q) c" by simp
    with 4 [OF that(2)] show False by simp
  qed
  from 1 2 3 4 5 search_total show ?thesis by blast
qed

theorem empty_text_scores_platform_only_witness:
  "c_text ex_empty = Some []
   \<and> score_chunk (lower ''UH-1 oil'') (tokenize_query ''UH-1 oil'') ex_empty
       = Inr (platform_adjust (lower ''UH-1 oil'') ex_empty)
   \<and> \<not> platform_match (lower ''UH-1 oil'') ex_empty
   \<and> platform_adjust (lower ''UH-1 oil'') ex_empty < 3
   \<and> weighted_keyword_search ''UH-1 oil'' [ex_empty, ex_chunk ''1'' ''oil'' ''UH-1''] 3
       = Inr [ex_chunk ''1'' ''oil'' ''UH-1'']
   \<and> ex_empty \<notin> set [ex_chunk ''1'' ''oil'' ''UH-1'']"
proof -
  have 1: "c_text ex_empty = Some []" by (simp add: ex_empty_def)
  have 2: "\<not> platform_match (lower ''UH-1 oil'') ex_empty" by code_simp
  have 3: "weighted_keyword_search ''UH-1 oil'' [ex_empty, ex_chunk ''1'' ''oil'' ''UH-1''] 3
       = Inr [ex_chunk ''1'' ''oil'' ''UH-1'']" by code_simp
  from empty_text_scores_platform_only [OF 1, of "tokenize_query ''UH-1 oil''" "lower ''UH-1 oil''"]
    1 2 3 show ?thesis by blast
qed

text \<open>
  An empty text under a matching platform tag scores 10 and is returned; a chunk without a
  text field makes the search raise \<open>KeyError\<close>.
\<close>

theorem empty_or_absent_text_counterexample:
  "c_text ex_empty = Some []
   \<and> score_chunk (lower ''AH-1 oil'') (tokenize_query ''AH-1 oil'') ex_empty = Inr 10
   \<and> weighted_keyword_search ''AH-1 oil'' [ex_empty] 3 = Inr [ex_empty]
   \<and> c_text ex_no_text = None
   \<and> weighted_keyword_search ''AH-1 oil'' [ex_no_text] 3 = Inl KeyError"
  by code_simp

section \<open>Queries without tokens\<close>

lemma space_char: "is_space c \<Longrightarrow> lower_char c = c \<and> \<not> is_alnum c \<and> \<not> is_digit c"
  by (auto simp: is_space_def lower_char_def is_upper_def is_upper_high_def is_alnum_def
        is_lower_def is_digit_def)

lemma lower_not_digit: "is_lower c \<Longrightarrow> \<not> is_digit c"
  by (auto simp: is_lower_def is_digit_def)

lemma lower_char_not_space: "is_lower (lower_char c) \<Longrightarrow> \<not> is_space c"
  by (auto simp: is_space_def lower_char_def is_upper_def is_upper_high_def is_lower_def
        split: if_splits)

lemma stopwords_letters: "w \<in> set STOPWORDS \<Longrightarrow> c \<in> set w \<Longrightarrow> is_lower c"
proof -
  have "list_all (list_all is_lower) STOPWORDS" by code_simp
  then show "w \<in> set STOPWORDS \<Longrightarrow> c \<in> set w \<Longrightarrow> is_lower c"
    by (auto simp: list_all_iff)
qed

lemma runs_cover: "c \<in> set s \<Longrightarrow> P c \<Longrightarrow> \<exists>w\<in>set (runs P s). c \<in> set w"
proof (induction P s rule: runs.induct)
  case (1 P)
  then show ?case by simp
next
  case (2 P x xs)
  show ?case
  proof (cases "P x")
    case True
    have "set (x # xs) = set (takeWhile P (x # xs)) \<union> set (dropWhile P (x # xs))"
      by (metis set_append takeWhile_dropWhile_id)
    with "2.prems" True consider "c \<in> set (takeWhile P (x # xs))" | "c \<in> set (dropWhile P xs)"
      by auto
    then show ?thesis
    proof cases
      case 1
      with True show ?thesis by auto
    next
      case 2
      with "2.IH"(1) [OF True] "2.prems" True show ?thesis by auto
    qed
  next
    case False
    with "2.prems" have "c \<in> set xs" by auto
    with "2.IH"(2) [OF False] "2.prems" False show ?thesis by auto
  qed
qed

lemma runs_cong: "\<forall>c\<in>set s. P c = Q c \<Longrightarrow> runs P s = runs Q s"
proof (induction P s rule: runs.induct)
  case (1 P)
  then show ?case by simp
next
  case (2 P x xs)
  have tw: "takeWhile P xs = takeWhile Q xs"
    using "2.prems" by (intro takeWhile_cong) auto
  have dw: "dropWhile P xs = dropWhile Q xs"
    using "2.prems" by (intro dropWhile_cong) auto
  show ?case
  proof (cases "P x")
    case True
    have "\<forall>c\<in>set (dropWhile P xs). P c = Q c"
      using "2.prems" by (auto dest: set_dropWhileD)
    with "2.IH"(1) [OF True] have "runs P (dropWhile P xs) = runs Q (dropWhile P xs)" by simp
    with True "2.prems" tw dw show ?thesis by simp
  next
    case False
    with "2.IH"(2) [OF False] "2.prems" show ?thesis by simp
  qed
qed

lemma runs_map: "runs P (map f s) = map (map f) (runs (\<lambda>c. P (f c)) s)"
proof (induction "\<lambda>c. P (f c)" s rule: runs.induct)
  case 1
  then show ?case by simp
next
  case (2 x xs)
  show ?case
  proof (cases "P (f x)")
    case True
    with "2.hyps"(1) show ?thesis
      by (simp add: takeWhile_map dropWhile_map comp_def)
  next
    case False
    with "2.hyps"(2) show ?thesis by simp
  qed
qed

lemma match_digits_None: "\<forall>c\<in>set s. \<not> is_digit c \<Longrightarrow> match_digits s = None"
  by (auto simp: match_digits_def split: list.splits)

lemma match_sep_digits_None: "\<forall>c\<in>set s. \<not> is_digit c \<Longrightarrow> match_sep_digits s = None"
  by (auto simp: match_sep_digits_def match_digits_None split: list.splits)

lemma match_platform_None: "\<forall>c\<in>set s. \<not> is_digit c \<Longrightarrow> match_platform s = None"
  by (auto simp: match_platform_def match_sep_digits_None split: list.splits)

lemma findall_platform_no_digit: "\<forall>c\<in>set s. \<not> is_digit c \<Longrightarrow> findall_platform s = []"
proof (induction s)
  case Nil
  then show ?case by simp
next
  case (Cons c cs)
  from Cons.prems have "match_platform (c # cs) = None" by (rule match_platform_None)
  with Cons show ?case by simp
qed

lemma stopword_query_chars:
  assumes "stopword_query q" "c \<in> set q"
  shows "is_space c \<or> is_lower (lower_char c)"
proof (cases "is_space c")
  case False
  with assms(2) runs_cover [of c q "\<lambda>c. \<not> is_space c"]
  obtain w where w: "w \<in> set (split_ws q)" "c \<in> set w"
    by (auto simp: split_ws_def)
  with assms(1) have "lower w \<in> set STOPWORDS"
    by (simp add: stopword_query_def list_all_iff)
  moreover from w(2) have "lower_char c \<in> set (lower w)" by (simp add: lower_def)
  ultimately show ?thesis using stopwords_letters by blast
qed simp

text \<open>
  Claim C5. For every query that is empty, consists of whitespace, or consists solely of
  stopwords, the tokenizer yields no token, and the search returns the empty list for
  every corpus and limit. No chunk is scored: the result is the empty list also on a corpus
  with a chunk that has no text field, on which scoring would raise.
\<close>

theorem stopword_query_no_tokens:
  assumes "stopword_query q"
  shows "tokenize_query q = [] \<and> weighted_keyword_search q kb k = Inr []"
proof -
  have nd: "\<forall>c\<in>set (lower q). \<not> is_digit c"
  proof
    fix c
    assume "c \<in> set (lower q)"
    then obtain d where d: "d \<in> set q" "c = lower_char d" by (auto simp: lower_def)
    from stopword_query_chars [OF assms d(1)] show "\<not> is_digit c"
    proof
      assume "is_space d"
      with space_char [of d] d(2) show ?thesis by simp
    next
      assume "is_lower (lower_char d)"
      with d(2) show ?thesis by (simp add: lower_not_digit)
    qed
  qed
  then have pt: "findall_platform (lower q) = []" by (rule findall_platform_no_digit)
  have "\<forall>c\<in>set q. is_alnum (lower_char c) = (\<not> is_space c)"
  proof
    fix c
    assume "c \<in> set q"
    from stopword_query_chars [OF assms this] show "is_alnum (lower_char c) = (\<not> is_space c)"
    proof
      assume "is_space c"
      with space_char [of c] show ?thesis by simp
    next
      assume "is_lower (lower_char c)"
      with lower_char_not_space [of c] show ?thesis by (simp add: is_alnum_def)
    qed
  qed
  then have "runs (\<lambda>c. is_alnum (lower_char c)) q = runs (\<lambda>c. \<not> is_space c) q"
    by (rule runs_cong)
  moreover have "runs is_alnum (lower q) = map lower (runs (\<lambda>c. is_alnum (lower_char c)) q)"
    unfolding lower_def [abs_def] by (rule runs_map)
  ultimately have "runs is_alnum (lower q) = map lower (split_ws q)"
    by (simp add: split_ws_def)
  with assms have "\<forall>t\<in>set (runs is_alnum (lower q)). t \<in> set STOPWORDS"
    by (simp add: stopword_query_def list_all_iff)
  then have "filter (\<lambda>t. t \<notin> set STOPWORDS \<and> length t > 1 \<and> t \<notin> set [])
               (runs is_alnum (lower q)) = []"
    unfolding filter_empty_conv by blast
  with pt have t: "tokenize_query q = []"
    unfolding tokenize_query_def Let_def by simp
  then show ?thesis by (simp add: weighted_keyword_search_def)
qed

theorem stopword_query_no_tokens_witness:
  "stopword_query ''What is  THE''
   \<and> tokenize_query ''What is  THE'' = []
   \<and> weighted_keyword_search ''What is  THE'' [ex_no_text, ex_chunk ''1'' ''what is the'' ''AH-1''] 3
       = Inr []
   \<and> stopword_query [] \<and> stopword_query [CHR '' '', CHR 0x09, CHR 0x0A]"
proof -
  have 1: "stopword_query ''What is  THE''" by code_simp
  have 2: "stopword_query []" by code_simp
  have 3: "stopword_query [CHR '' '', CHR 0x09, CHR 0x0A]" by code_simp
  from stopword_query_no_tokens [OF 1, of "[ex_no_text, ex_chunk ''1'' ''what is the'' ''AH-1'']" 3]
    1 2 3 show ?thesis by blast
qed

section \<open>Word-boundary counting\<close>









section \<open>The shape of query tokens\<close>













section \<open>Monotonicity in keyword coverage\<close>














end
